theory Spec2Isabelle
  imports Main "HOL-Library.Char_ord" "HOL-Library.List_Lexorder"
begin

unbundle bit_operations_syntax

section \<open>Register access: \<open>test/csr.py\<close>\<close>

text \<open>
  The exceptions the modelled code can raise.  \<open>PitayaCSR.set\<close> has two assertions with
  different messages: \<open>assert wr, name\<close> and
  \<open>assert value >= -ma/2 and value < ma, (value, val, ma)\<close>; they are kept apart by their
  message.  In the words of the specification, \<open>KeyError\<close> is UnknownRegister,
  \<open>AssertionError_name\<close> is ReadOnlyRegister and \<open>AssertionError_range\<close> is OutOfRange.
  \<open>OverflowError\<close> is raised by the true division \<open>-ma/2\<close> when the quotient does not fit
  a float, \<open>ValueError\<close> by a device backend whose transport failed.  The remaining ones
  belong to \<open>test/transfer.py\<close>.
\<close>

datatype error =
    KeyError string
  | AssertionError_name string
  | AssertionError_range int int int
  | OverflowError
  | ValueError
  | ZeroDivisionError
  | TypeError
  | NameError
  | StopSimulation

text \<open>\<open>csrmap\<close>: register name to \<open>(addr, nr, wr)\<close>: address, width in bytes, writable.\<close>

type_synonym csrmap = "string \<rightharpoonup> (int \<times> nat \<times> bool)"

text \<open>
  \<open>PitayaCSR\<close> leaves \<open>set_one\<close> and \<open>get_one\<close> to its subclasses.  A backend gives the two
  methods over its own state \<open>'s\<close>; \<open>set_one\<close> returns the exception it raised, if any,
  with the state it left behind.
\<close>

record 's backend =
  set_one :: "int \<Rightarrow> int \<Rightarrow> 's \<Rightarrow> error option \<times> 's"
  get_one :: "int \<Rightarrow> 's \<Rightarrow> error + int"

text \<open>
  The loop of \<open>PitayaCSR.set\<close>:
  \<^verbatim>\<open>for i in range(nr): v = (val >> (8*(nr - i - 1))) & 0xff; self.set_one(addr + i*4, v)\<close>
\<close>

fun set_loop :: "'s backend \<Rightarrow> int \<Rightarrow> nat \<Rightarrow> int \<Rightarrow> nat list \<Rightarrow> 's \<Rightarrow> error option \<times> 's" where
  "set_loop B addr nr val [] s = (None, s)"
| "set_loop B addr nr val (i # is) s =
     (let v = drop_bit (8 * (nr - i - 1)) val AND 0xff in
      case set_one B (addr + int i * 4) v s of
        (Some e, s') \<Rightarrow> (Some e, s')
      | (None, s') \<Rightarrow> set_loop B addr nr val is s')"

text \<open>
  \<open>PitayaCSR.set\<close>.  \<open>-ma/2\<close> is a true division: it raises OverflowError when
  \<open>2 ^ (8 * nr - 1)\<close> is beyond the largest float (\<open>8 * nr - 1 > 1023\<close>), and is exact
  otherwise, so that \<open>value >= -ma/2\<close> is \<open>- ma \<le> 2 * value\<close>.
\<close>

definition set_csr :: "'s backend \<Rightarrow> csrmap \<Rightarrow> string \<Rightarrow> int \<Rightarrow> 's \<Rightarrow> error option \<times> 's" where
  "set_csr B m name value s =
     (case m name of
        None \<Rightarrow> (Some (KeyError name), s)
      | Some (addr, nr, wr) \<Rightarrow>
          if \<not> wr then (Some (AssertionError_name name), s)
          else
            let ma = push_bit (nr * 8) (1 :: int);
                val = value AND (ma - 1)
            in if 8 * nr - 1 > 1023 then (Some OverflowError, s)
               else if \<not> (- ma \<le> 2 * value \<and> value < ma)
                 then (Some (AssertionError_range value val ma), s)
               else set_loop B addr nr val [0 ..< nr] s)"

text \<open>
  The loop of \<open>PitayaCSR.get\<close>:
  \<^verbatim>\<open>for i in range(nr): v |= self.get_one(addr + i*4) << 8*(nr - i -1)\<close>
\<close>

fun get_loop :: "'s backend \<Rightarrow> int \<Rightarrow> nat \<Rightarrow> nat list \<Rightarrow> int \<Rightarrow> 's \<Rightarrow> error + int" where
  "get_loop B addr nr [] v s = Inr v"
| "get_loop B addr nr (i # is) v s =
     (case get_one B (addr + int i * 4) s of
        Inl e \<Rightarrow> Inl e
      | Inr b \<Rightarrow> get_loop B addr nr is (v OR push_bit (8 * (nr - i - 1)) b) s)"

definition get_csr :: "'s backend \<Rightarrow> csrmap \<Rightarrow> string \<Rightarrow> 's \<Rightarrow> error + int" where
  "get_csr B m name s =
     (case m name of
        None \<Rightarrow> Inl (KeyError name)
      | Some (addr, nr, wr) \<Rightarrow> get_loop B addr nr [0 ..< nr] 0 s)"

text \<open>
  \<open>PitayaTB\<close>: the state is the dictionary \<open>self.params\<close>;
  \<open>set_one\<close> is \<open>self.params[(addr - 0x40300000)//4] = value\<close> and \<open>get_one\<close> returns 0.
\<close>

definition PitayaTB :: "(int \<rightharpoonup> int) backend" where
  "PitayaTB =
     \<lparr> set_one = (\<lambda>addr value params. (None, params((addr - 0x40300000) div 4 \<mapsto> value))),
       get_one = (\<lambda>addr params. Inr 0) \<rparr>"

text \<open>
  A backend that only logs the calls of \<open>set_one\<close>, in order, as pairs
  \<open>(addr, value)\<close>, and reads 0 like \<open>PitayaTB\<close>.
\<close>

definition Logging :: "((int \<times> int) list) backend" where
  "Logging =
     \<lparr> set_one = (\<lambda>addr value log. (None, log @ [(addr, value)])),
       get_one = (\<lambda>addr log. Inr 0) \<rparr>"

text \<open>
  A backend that keeps the byte written to each address and returns it when the address
  is read: a device whose registers are plain storage.
\<close>

definition Storage :: "(int \<Rightarrow> int) backend" where
  "Storage =
     \<lparr> set_one = (\<lambda>addr value regs. (None, regs(addr := value))),
       get_one = (\<lambda>addr regs. Inr (regs addr)) \<rparr>"

text \<open>
  A backend stores what is written: \<open>set_one\<close> does not fail, the byte it wrote is the
  one \<open>get_one\<close> returns at that address, and the other addresses read as before.
\<close>

definition stores :: "'s backend \<Rightarrow> bool" where
  "stores B \<longleftrightarrow>
     (\<forall>a v s. fst (set_one B a v s) = None \<and>
        get_one B a (snd (set_one B a v s)) = Inr v \<and>
        (\<forall>a'. a' \<noteq> a \<longrightarrow> get_one B a' (snd (set_one B a v s)) = get_one B a' s))"

subsection \<open>\<open>PitayaCSR.set_iir\<close>\<close>

text \<open>
  The loop \<^verbatim>\<open>for k in sorted(params): self.set(prefix + "_" + k, params[k])\<close>; the
  dictionary \<open>params\<close> is a map and the list is that of its sorted keys.
\<close>

fun set_all :: "'s backend \<Rightarrow> csrmap \<Rightarrow> string \<Rightarrow> (string \<rightharpoonup> int) \<Rightarrow> string list \<Rightarrow> 's
    \<Rightarrow> error option \<times> 's" where
  "set_all B m prefix params [] s = (None, s)"
| "set_all B m prefix params (k # ks) s =
     (case params k of
        None \<Rightarrow> (Some (KeyError k), s)
      | Some v \<Rightarrow>
          (case set_csr B m (prefix @ ''_'' @ k) v s of
             (Some e, s') \<Rightarrow> (Some e, s')
           | (None, s') \<Rightarrow> set_all B m prefix params ks s'))"

definition set_params :: "'s backend \<Rightarrow> csrmap \<Rightarrow> string \<Rightarrow> (string \<times> int) list \<Rightarrow> 's
    \<Rightarrow> error option \<times> 's" where
  "set_params B m prefix params s =
     set_all B m prefix (map_of params) (sort (remdups (map fst params))) s"

text \<open>
  \<open>PitayaCSR.set_iir\<close>.  \<open>get_params\<close> comes from the module \<open>iir_coeffs\<close>, which the
  repository does not hold: it is a parameter here, returning \<open>(b, a, params)\<close> with the
  dictionary \<open>params\<close> as an association list.  \<open>x or 16\<close> is 16 when \<open>x\<close> is 0 and
  \<open>x\<close> otherwise.  The \<open>print\<close> is left out.
\<close>

definition set_iir :: "'s backend \<Rightarrow> csrmap
    \<Rightarrow> ('b \<Rightarrow> 'a \<Rightarrow> int \<Rightarrow> int \<Rightarrow> 'b \<times> 'a \<times> (string \<times> int) list)
    \<Rightarrow> string \<Rightarrow> 'b \<Rightarrow> 'a \<Rightarrow> 's \<Rightarrow> error option \<times> 's" where
  "set_iir B m get_params prefix b a s =
     (case get_csr B m (prefix @ ''_shift'') s of
        Inl e \<Rightarrow> (Some e, s)
      | Inr r1 \<Rightarrow>
          let shift = (if r1 = 0 then 16 else r1) in
          (case get_csr B m (prefix @ ''_width'') s of
             Inl e \<Rightarrow> (Some e, s)
           | Inr r2 \<Rightarrow>
               let width = (if r2 = 0 then 25 else r2);
                   (b', a', params) = get_params b a shift width
               in set_params B m prefix params s))"

section \<open>The simulated bus and the sampler: \<open>test/transfer.py\<close>\<close>

subsection \<open>\<open>CsrParams.writes\<close>\<close>

datatype transaction = TWrite int int | TRead int

text \<open>A key of the dictionary \<open>params\<close>: a register name or a bus address.\<close>

datatype key = Name string | Index int

text \<open>
  \<^verbatim>\<open>for c in self.desc: if c.name == k: n = c.size; break\<close> over the descriptions
  \<open>(name, size)\<close>; \<open>n\<close> keeps the value of an earlier round when no name matches, and is
  unbound (\<open>None\<close>) when there was none.
\<close>

fun find_size :: "(string \<times> nat) list \<Rightarrow> key \<Rightarrow> nat option \<Rightarrow> nat option" where
  "find_size [] k n = n"
| "find_size ((cname, csize) # cs) k n =
     (if Name cname = k then Some csize else find_size cs k n)"

text \<open>
  \<^verbatim>\<open>for i in reversed(range(b)): vi = (v >> (i*8)) & 0xff; yield TWrite(a, vi); a += 1\<close>
\<close>

fun write_bytes :: "int \<Rightarrow> nat list \<Rightarrow> int \<Rightarrow> transaction list" where
  "write_bytes v [] a = []"
| "write_bytes v (i # is) a =
     TWrite a (drop_bit (i * 8) v AND 0xff) # write_bytes v is (a + 1)"

fun names_of :: "key list \<Rightarrow> string list option" where
  "names_of [] = Some []"
| "names_of (Name s # ks) = map_option ((#) s) (names_of ks)"
| "names_of (Index i # ks) = None"

fun indices_of :: "key list \<Rightarrow> int list option" where
  "indices_of [] = Some []"
| "indices_of (Index i # ks) = map_option ((#) i) (indices_of ks)"
| "indices_of (Name s # ks) = None"

text \<open>\<open>sorted\<close> on keys: names and numbers do not compare, a mixed list raises TypeError.\<close>

definition sorted_keys :: "key list \<Rightarrow> error + key list" where
  "sorted_keys ks =
     (case names_of ks of
        Some ns \<Rightarrow> Inr (map Name (sort ns))
      | None \<Rightarrow>
          (case indices_of ks of
             Some js \<Rightarrow> Inr (map Index (sort js))
           | None \<Rightarrow> Inl TypeError))"

text \<open>
  The outer loop of \<open>CsrParams.writes\<close>.  \<open>get_offset\<close> is the library's
  \<open>get_offset(self.desc, k)\<close>, a parameter.  The generator is modelled by the list of
  what it yields and the exception that ended it, if any.  A key of the loop is a key of
  \<open>params\<close>, so that \<open>self.params[k]\<close> finds it; the model gives the KeyError of the
  other case.
\<close>

fun writes_loop :: "(string \<times> nat) list \<Rightarrow> (string \<Rightarrow> error + int) \<Rightarrow> (key \<rightharpoonup> int)
    \<Rightarrow> key list \<Rightarrow> nat option \<Rightarrow> transaction list \<times> error option" where
  "writes_loop desc get_offset params [] n = ([], None)"
| "writes_loop desc get_offset params (k # ks) n =
     (let n1 = find_size desc k n in
      case (case k of
              Name s \<Rightarrow>
                (case get_offset s of
                   Inl e \<Rightarrow> Inl e
                 | Inr a \<Rightarrow> (case n1 of None \<Rightarrow> Inl NameError | Some n2 \<Rightarrow> Inr (a, n2)))
            | Index a \<Rightarrow> Inr (a, 1)) of
        Inl e \<Rightarrow> ([], Some e)
      | Inr (a, n2) \<Rightarrow>
          (case params k of
             None \<Rightarrow> ([], Some (KeyError (case k of Name s \<Rightarrow> s | Index _ \<Rightarrow> [])))
           | Some v \<Rightarrow>
               let b = (n2 + 8 - 1) div 8;
                   ws = write_bytes v (rev [0 ..< b]) a;
                   (rest, err) = writes_loop desc get_offset params ks (Some n2)
               in (ws @ rest, err)))"

definition writes :: "(string \<times> nat) list \<Rightarrow> (string \<Rightarrow> error + int) \<Rightarrow> (key \<times> int) list
    \<Rightarrow> transaction list \<times> error option" where
  "writes desc get_offset params =
     (case sorted_keys (remdups (map fst params)) of
        Inl e \<Rightarrow> ([], Some e)
      | Inr ks \<Rightarrow> writes_loop desc get_offset (map_of params) ks None)"

subsection \<open>\<open>Filter\<close>: the sampler\<close>

text \<open>
  The attributes of a \<open>Filter\<close> that \<open>do_simulation\<close> uses.  \<open>self_x\<close> is the quantised
  input \<open>self.x\<close>, \<open>self_xgen\<close> what the iterator \<open>self.xgen\<close> has not yet delivered,
  \<open>dut_x\<close> the value last driven into the device (\<open>selfp.dut.x\<close>).
\<close>

record filter =
  self_x :: "int list"
  self_xgen :: "int list"
  self_ygen :: "int list"
  self_y :: "int list"
  self_warmup :: int
  self_latency :: int
  self_interval :: int
  dut_x :: int

text \<open>
  \<open>Filter.__init__\<close>, from the quantised input on: the float product
  \<open>(self.scale*np.array(x)).astype(np.int)\<close> that gives \<open>self.x\<close> is not modelled.
  \<open>warmup % interval\<close> raises ZeroDivisionError when \<open>interval\<close> is 0.
\<close>

definition Filter_init :: "int list \<Rightarrow> int \<Rightarrow> int \<Rightarrow> int \<Rightarrow> error + filter" where
  "Filter_init x warmup latency interval =
     (if interval = 0 then Inl ZeroDivisionError
      else Inr \<lparr> self_x = x, self_xgen = x, self_ygen = [], self_y = [],
                 self_warmup = warmup - warmup mod interval,
                 self_latency = latency, self_interval = interval, dut_x = 0 \<rparr>)"

text \<open>
  \<open>Filter.do_simulation\<close> at the simulator's \<open>cycle_counter\<close>, with \<open>dut_y\<close> the value
  of \<open>selfp.dut.y\<close> in that cycle.  The result is the exception that leaves the method,
  if any, and the attributes afterwards.  StopIteration and IndexError are caught by the
  method itself: they are the branches of the empty \<open>self_xgen\<close> and the empty
  \<open>self_ygen\<close>.
\<close>

definition do_simulation :: "int \<Rightarrow> int \<Rightarrow> filter \<Rightarrow> error option \<times> filter" where
  "do_simulation cycle_counter dut_y f =
     (let c = cycle_counter - self_warmup f in
      if c < 0 then (None, f)
      else if length (self_y f) = length (self_x f) then (Some StopSimulation, f)
      else if self_interval f = 0 then (Some ZeroDivisionError, f)
      else
        let f1 = (if c mod self_interval f = 0
                  then (case self_xgen f of
                          [] \<Rightarrow> f
                        | xv # rest \<Rightarrow>
                            f\<lparr> dut_x := xv, self_xgen := rest,
                               self_ygen := self_ygen f @ [c + 1 + self_latency f] \<rparr>)
                  else f)
        in (case self_ygen f1 of
              [] \<Rightarrow> (None, f1)
            | due # rest \<Rightarrow>
                if c = due
                then (None, f1\<lparr> self_ygen := rest, self_y := self_y f1 @ [dut_y] \<rparr>)
                else (None, f1)))"

text \<open>
  The simulator that \<open>Filter.run\<close> starts with \<open>run_simulation(self)\<close> belongs to the
  simulation library.  It calls \<open>do_simulation\<close> once per clock cycle, with
  \<open>cycle_counter\<close> 0, 1, 2, ..., until the method raises.  \<open>dut\<close> gives the device's
  output in each cycle; the inputs are driven on a schedule that does not depend on the
  outputs, so that the output is a function of the cycle.  The loop need not end: it
  runs on fuel, \<open>None\<close> is a run that has not ended when the fuel is used up.  The result
  is the exception that ended the run, the cycle in which it was raised and the
  attributes then.
\<close>

fun run_simulation :: "(int \<Rightarrow> int) \<Rightarrow> nat \<Rightarrow> int \<Rightarrow> filter \<Rightarrow> (error \<times> int \<times> filter) option" where
  "run_simulation dut 0 cycle f = None"
| "run_simulation dut (Suc fuel) cycle f =
     (case do_simulation cycle (dut cycle) f of
        (Some e, f') \<Rightarrow> Some (e, cycle, f')
      | (None, f') \<Rightarrow> run_simulation dut fuel (cycle + 1) f')"




subsection \<open>\<open>CsrThread.gen\<close>: the driver loop\<close>

text \<open>
  What the queue can hold: a \<open>threading.Event\<close> (with a number to tell the events
  apart), \<open>None\<close>, an integer, or anything else, of which \<open>write\<close> and \<open>read\<close>
  enqueue \<open>TWrite\<close> and \<open>TRead\<close>.
\<close>

datatype qitem = Event nat | QNone | QInt int | QTrans transaction

text \<open>What \<open>next\<close> on the generator gives: a yielded value (\<open>None\<close> or a transaction), or
  StopIteration when the generator has returned.\<close>

datatype gen_result = Yield "transaction option" | StopIteration

text \<open>
  The state of the generator and of what it shares: \<open>self_queue\<close> is \<open>self.queue\<close>,
  \<open>gen_delay\<close> the rounds that \<open>for i in range(q): yield\<close> still has to make when the
  generator is suspended there, \<open>gen_done\<close> whether the generator has returned,
  \<open>events_set\<close> the events that were set, in order.
\<close>

record csr_thread =
  self_queue :: "qitem list"
  gen_delay :: nat
  gen_done :: bool
  events_set :: "nat list"

text \<open>
  The \<open>while True\<close> loop of \<open>gen\<close> from \<open>self.queue.pop(0)\<close> to the next \<open>yield\<close> or
  \<open>break\<close>, in the order of the \<open>if\<close> chain.  The empty queue is the IndexError that the
  loop catches with \<open>yield None\<close>.
\<close>

fun gen_pop :: "qitem list \<Rightarrow> nat list \<Rightarrow> gen_result \<times> csr_thread" where
  "gen_pop [] ev =
     (Yield None, \<lparr> self_queue = [], gen_delay = 0, gen_done = False, events_set = ev \<rparr>)"
| "gen_pop (Event e # q) ev = gen_pop q (ev @ [e])"
| "gen_pop (QNone # q) ev =
     (StopIteration, \<lparr> self_queue = q, gen_delay = 0, gen_done = True, events_set = ev \<rparr>)"
| "gen_pop (QInt n # q) ev =
     (if 0 < n
      then (Yield None,
            \<lparr> self_queue = q, gen_delay = nat n - 1, gen_done = False, events_set = ev \<rparr>)
      else gen_pop q ev)"
| "gen_pop (QTrans t # q) ev =
     (Yield (Some t), \<lparr> self_queue = q, gen_delay = 0, gen_done = False, events_set = ev \<rparr>)"

text \<open>One \<open>next\<close> on the generator \<open>gen()\<close>.\<close>

definition gen_next :: "csr_thread \<Rightarrow> gen_result \<times> csr_thread" where
  "gen_next st =
     (if gen_done st then (StopIteration, st)
      else if 0 < gen_delay st then (Yield None, st\<lparr> gen_delay := gen_delay st - 1 \<rparr>)
      else gen_pop (self_queue st) (events_set st))"

text \<open>\<open>CsrThread.write\<close> and \<open>CsrThread.read\<close> up to \<open>ev.wait()\<close>: what they append.\<close>

definition write_enqueue :: "int \<Rightarrow> int \<Rightarrow> nat \<Rightarrow> csr_thread \<Rightarrow> csr_thread" where
  "write_enqueue addr value e st =
     st\<lparr> self_queue := self_queue st @ [QTrans (TWrite addr value), Event e] \<rparr>"

definition read_enqueue :: "int \<Rightarrow> nat \<Rightarrow> csr_thread \<Rightarrow> csr_thread" where
  "read_enqueue addr e st =
     st\<lparr> self_queue := self_queue st @ [QTrans (TRead addr), Event e] \<rparr>"

text \<open>
  The consumer of \<open>gen\<close> is the bus initiator of the simulation library
  (\<open>Initiator(self.gen(), self.bank.bus)\<close>).  It takes one value from the generator in a
  clock cycle in which the bus is free; \<open>None\<close> leaves the bus idle for that cycle, and
  StopIteration ends the simulation.  \<open>clock_step\<close> is such a cycle, on the clock
  counter and the generator's state; the clock stands still once the simulation has
  ended.
\<close>

definition clock_step :: "nat \<times> csr_thread \<Rightarrow> nat \<times> csr_thread" where
  "clock_step cs =
     (case gen_next (snd cs) of
        (StopIteration, st') \<Rightarrow> (fst cs, st')
      | (Yield t, st') \<Rightarrow> (fst cs + 1, st'))"

section \<open>Properties of the register access\<close>

subsection \<open>Bits and bytes\<close>

lemma ma_eq: "push_bit (nr * 8) (1 :: int) = 2 ^ (8 * nr)"
  by (simp add: push_bit_eq_mult mult.commute)

lemma val_eq: "value AND (push_bit (nr * 8) (1 :: int) - 1) = value mod 2 ^ (8 * nr)"
proof -
  have "push_bit (nr * 8) (1 :: int) - 1 = mask (8 * nr)"
    by (simp add: mask_eq_exp_minus_1 push_bit_eq_mult mult.commute)
  then show ?thesis
    by (simp add: take_bit_eq_mod flip: take_bit_eq_mask)
qed

lemma val_eq2: "value AND ((2 :: int) ^ (8 * nr) - 1) = value mod 2 ^ (8 * nr)"
  using val_eq [of "value" nr] by (simp only: ma_eq)

lemma byte_eq: "drop_bit k (v :: int) AND 0xff = v div 2 ^ k mod 256"
proof -
  have "drop_bit k v AND 0xff = drop_bit k v AND mask 8"
    by (simp add: mask_eq_exp_minus_1)
  also have "\<dots> = take_bit 8 (drop_bit k v)"
    by (simp only: take_bit_eq_mask)
  also have "\<dots> = v div 2 ^ k mod 256"
    by (simp add: drop_bit_eq_div take_bit_eq_mod)
  finally show ?thesis .
qed

lemma byte_join: "push_bit 8 (drop_bit 8 (w :: int)) OR take_bit 8 w = w"
  by (rule bit_eqI) (auto simp: bit_simps)

text \<open>The bytes of \<open>set_loop\<close>, joined as \<open>get_loop\<close> joins them, after \<open>k\<close> rounds.\<close>

lemma bytes_fold:
  fixes x val :: int
  assumes val_def: "val = take_bit (8 * nr) x"
  shows "k \<le> nr \<Longrightarrow>
   fold (\<lambda>i v. v OR push_bit (8 * (nr - i - 1)) (drop_bit (8 * (nr - i - 1)) val AND 0xff)) [0 ..< k] 0
     = push_bit (8 * (nr - k)) (drop_bit (8 * (nr - k)) val)"
proof (induction k)
  case 0
  have "drop_bit (8 * nr) val = 0"
    by (simp add: val_def drop_bit_take_bit)
  then show ?case by simp
next
  case (Suc k)
  define m where "m = 8 * (nr - k - 1)"
  have m8: "8 * (nr - k) = m + 8"
    using Suc.prems by (simp add: m_def)
  define w where "w = drop_bit m val"
  have ff: "w AND 0xff = take_bit 8 w"
    by (simp add: take_bit_eq_mask mask_eq_exp_minus_1)
  have "fold (\<lambda>i v. v OR push_bit (8 * (nr - i - 1)) (drop_bit (8 * (nr - i - 1)) val AND 0xff)) [0 ..< Suc k] 0
      = push_bit (m + 8) (drop_bit (m + 8) val) OR push_bit m (w AND 0xff)"
    using Suc by (simp add: m8 m_def w_def)
  also have "push_bit (m + 8) (drop_bit (m + 8) val) = push_bit m (push_bit 8 (drop_bit 8 w))"
    by (simp add: w_def add.commute)
  also have "push_bit m (push_bit 8 (drop_bit 8 w)) OR push_bit m (w AND 0xff)
      = push_bit m (push_bit 8 (drop_bit 8 w) OR take_bit 8 w)"
    by (simp only: ff push_bit_or)
  also have "\<dots> = push_bit m w"
    by (simp only: byte_join)
  finally show ?case
    by (simp add: m_def w_def)
qed

lemma bytes_fold_all:
  "fold (\<lambda>i v. v OR push_bit (8 * (nr - i - 1)) (drop_bit (8 * (nr - i - 1)) (x mod 2 ^ (8 * nr)) AND 0xff)) [0 ..< nr] 0
     = (x :: int) mod 2 ^ (8 * nr)"
  using bytes_fold [of "x mod 2 ^ (8 * nr)" nr x nr] by (simp add: take_bit_eq_mod)

lemma half_range: "1 \<le> nr \<Longrightarrow> (2 :: int) * 2 ^ (8 * nr - 1) = 2 ^ (8 * nr)"
  by (cases nr) (simp_all add: power_add)

subsection \<open>The checks of \<open>set_csr\<close>\<close>

lemma set_csr_accept:
  assumes "m name = Some (addr, nr, True)" and "nr \<le> 128"
    and "- (2 ^ (8 * nr)) \<le> 2 * value" and "value < 2 ^ (8 * nr)"
  shows "set_csr B m name value s = set_loop B addr nr (value mod 2 ^ (8 * nr)) [0 ..< nr] s"
proof -
  have "\<not> 8 * nr - 1 > 1023" using assms(2) by arith
  then show ?thesis
    unfolding set_csr_def Let_def ma_eq val_eq2 using assms by simp
qed

lemma set_csr_reject:
  assumes "m name = Some (addr, nr, True)" and "nr \<le> 128"
    and "\<not> (- (2 ^ (8 * nr)) \<le> 2 * value \<and> value < 2 ^ (8 * nr))"
  shows "set_csr B m name value s =
    (Some (AssertionError_range value (value mod 2 ^ (8 * nr)) (2 ^ (8 * nr))), s)"
proof -
  have "\<not> 8 * nr - 1 > 1023" using assms(2) by arith
  then show ?thesis
    unfolding set_csr_def Let_def ma_eq val_eq2 using assms by auto
qed

subsection \<open>The loops on the backends\<close>

lemma set_loop_Logging:
  "set_loop Logging addr nr val is log =
     (None, log @ map (\<lambda>i. (addr + int i * 4, drop_bit (8 * (nr - i - 1)) val AND 0xff)) is)"
  by (induction "is" arbitrary: log) (simp_all add: Logging_def)

lemma stores_Storage: "stores Storage"
  by (simp add: stores_def Storage_def)

lemma set_loop_stores: "stores B \<Longrightarrow> fst (set_loop B addr nr val is s) = None"
proof (induction "is" arbitrary: s)
  case Nil
  then show ?case by simp
next
  case (Cons i "is")
  let ?r = "set_one B (addr + int i * 4) (drop_bit (8 * (nr - i - 1)) val AND 0xff) s"
  from Cons.prems have "fst ?r = None" by (simp add: stores_def)
  then obtain s1 where "?r = (None, s1)" by (cases ?r) auto
  with Cons show ?case by (simp add: Let_def)
qed

text \<open>
  After the loop of \<open>set\<close> on a storing backend, each address of the loop reads as the
  byte written to it, and every other address as before.
\<close>

lemma set_loop_reads_back:
  assumes "stores B" and "distinct is" and "set_loop B addr nr val is s = (None, s')"
  shows "(\<forall>i \<in> set is. get_one B (addr + int i * 4) s' = Inr (drop_bit (8 * (nr - i - 1)) val AND 0xff))
       \<and> (\<forall>a. a \<notin> (\<lambda>i. addr + int i * 4) ` set is \<longrightarrow> get_one B a s' = get_one B a s)"
  using assms(2,3)
proof (induction "is" arbitrary: s)
  case Nil
  then show ?case by simp
next
  case (Cons i "is")
  let ?v = "drop_bit (8 * (nr - i - 1)) val AND 0xff"
  obtain r s1 where one: "set_one B (addr + int i * 4) ?v s = (r, s1)"
    by (cases "set_one B (addr + int i * 4) ?v s")
  from Cons.prems(2) one have r: "r = None" and rest: "set_loop B addr nr val is s1 = (None, s')"
    by (auto simp: Let_def split: option.splits)
  from assms(1) have "get_one B (addr + int i * 4) (snd (set_one B (addr + int i * 4) ?v s)) = Inr ?v"
    and "\<And>a'. a' \<noteq> addr + int i * 4 \<Longrightarrow>
           get_one B a' (snd (set_one B (addr + int i * 4) ?v s)) = get_one B a' s"
    by (simp_all add: stores_def)
  with one have here: "get_one B (addr + int i * 4) s1 = Inr ?v"
    and other: "\<And>a'. a' \<noteq> addr + int i * 4 \<Longrightarrow> get_one B a' s1 = get_one B a' s"
    by simp_all
  from Cons.prems(1) have d: "distinct is" and ni: "i \<notin> set is" by auto
  from Cons.IH [OF d rest]
  have ih1: "\<forall>j \<in> set is. get_one B (addr + int j * 4) s' = Inr (drop_bit (8 * (nr - j - 1)) val AND 0xff)"
    and ih2: "\<forall>a. a \<notin> (\<lambda>j. addr + int j * 4) ` set is \<longrightarrow> get_one B a s' = get_one B a s1"
    by auto
  have notin: "addr + int i * 4 \<notin> (\<lambda>j. addr + int j * 4) ` set is"
    using ni by auto
  have "get_one B (addr + int i * 4) s' = Inr ?v"
    using ih2 notin here by simp
  moreover have "\<forall>a. a \<notin> (\<lambda>j. addr + int j * 4) ` set (i # is) \<longrightarrow> get_one B a s' = get_one B a s"
    using ih2 other by auto
  ultimately show ?case using ih1 by simp
qed

lemma get_loop_fold:
  "\<forall>i \<in> set is. get_one B (addr + int i * 4) s = Inr (f i) \<Longrightarrow>
   get_loop B addr nr is v s = Inr (fold (\<lambda>i v. v OR push_bit (8 * (nr - i - 1)) (f i)) is v)"
  by (induction "is" arbitrary: v) simp_all

lemma roundtrip:
  assumes st: "stores B" and reg: "m name = Some (addr, nr, True)" and nr: "nr \<le> 128"
    and lo: "- (2 ^ (8 * nr)) \<le> 2 * value" and hi: "value < 2 ^ (8 * nr)"
  shows "fst (set_csr B m name value s) = None"
    and "get_csr B m name (snd (set_csr B m name value s)) = Inr (value mod 2 ^ (8 * nr))"
proof -
  let ?val = "value mod 2 ^ (8 * nr)"
  have eq: "set_csr B m name value s = set_loop B addr nr ?val [0 ..< nr] s"
    using reg nr lo hi by (rule set_csr_accept)
  show ok: "fst (set_csr B m name value s) = None"
    by (simp add: eq set_loop_stores [OF st])
  obtain s' where s': "set_loop B addr nr ?val [0 ..< nr] s = (None, s')"
    using set_loop_stores [OF st, of addr nr ?val "[0 ..< nr]" s]
    by (cases "set_loop B addr nr ?val [0 ..< nr] s") auto
  have rd: "\<forall>i \<in> set [0 ..< nr]. get_one B (addr + int i * 4) s'
      = Inr (drop_bit (8 * (nr - i - 1)) ?val AND 0xff)"
    using set_loop_reads_back [OF st _ s'] by simp
  have "get_loop B addr nr [0 ..< nr] 0 s' = Inr ?val"
    by (simp only: get_loop_fold [OF rd] bytes_fold_all)
  then show "get_csr B m name (snd (set_csr B m name value s)) = Inr ?val"
    by (simp add: get_csr_def reg eq s')
qed

lemma get_loop_PitayaTB: "get_loop PitayaTB addr nr is 0 params = Inr 0"
  by (induction "is") (simp_all add: PitayaTB_def)

lemma get_csr_PitayaTB: "m name = Some r \<Longrightarrow> get_csr PitayaTB m name params = Inr 0"
  by (cases r) (simp add: get_csr_def get_loop_PitayaTB)

lemma write_bytes_rev:
  "write_bytes v (rev [0 ..< b]) a =
     map (\<lambda>j. TWrite (a + int j) (v div 2 ^ (8 * (b - 1 - j)) mod 256)) [0 ..< b]"
proof (induction b arbitrary: a)
  case 0
  then show ?case by simp
next
  case (Suc b)
  have "write_bytes v (rev [0 ..< Suc b]) a
      = TWrite a (v div 2 ^ (8 * b) mod 256) # write_bytes v (rev [0 ..< b]) (a + 1)"
    by (simp add: byte_eq mult.commute)
  also have "write_bytes v (rev [0 ..< b]) (a + 1)
      = map (\<lambda>j. TWrite (a + 1 + int j) (v div 2 ^ (8 * (b - 1 - j)) mod 256)) [0 ..< b]"
    by (rule Suc.IH)
  also have "\<dots> = map (\<lambda>j. TWrite (a + int j) (v div 2 ^ (8 * (Suc b - 1 - j)) mod 256)) (map Suc [0 ..< b])"
    by (simp add: add.assoc add.commute)
  finally show ?case
    by (simp add: upt_conv_Cons map_Suc_upt del: upt_Suc)
qed

section \<open>The claims on the register access\<close>

text \<open>
  C1, as stated: for every width \<open>w \<ge> 1\<close>, encoding \<open>2 ^ (8 * w - 1)\<close> fails with
  OutOfRange.  It does not: for the width 1 the value 128 passes the assertion
  \<open>value >= -ma/2 and value < ma\<close>, whose upper bound is \<open>ma = 2 ^ (8 * w)\<close>, and the
  byte \<open>0x80\<close> is written.
\<close>

theorem set_csr_accepts_half_range_counterexample:
  "set_csr Logging [''r'' \<mapsto> (0, 1, True)] ''r'' (2 ^ (8 * 1 - 1)) [] = (None, [(0, 0x80)])"
  by (simp add: set_csr_def Logging_def)

text \<open>
  C1, amended: for a writable register of width \<open>nr\<close> with \<open>1 \<le> nr \<le> 128\<close>, writing
  \<open>2 ^ (8 * nr)\<close> fails with OutOfRange (the assertion on the range) and leaves the
  backend's state as it was, while \<open>2 ^ (8 * nr) - 1\<close> and \<open>2 ^ (8 * nr - 1)\<close> are
  accepted; in general a value is accepted exactly when
  \<open>- 2 ^ (8 * nr - 1) \<le> value < 2 ^ (8 * nr)\<close>, and every other value fails with
  OutOfRange before anything is written.
\<close>

theorem set_csr_range_check:
  assumes reg: "m name = Some (addr, nr, True)" and nr1: "1 \<le> nr" and nr: "nr \<le> 128"
  shows "set_csr B m name (2 ^ (8 * nr)) s
           = (Some (AssertionError_range (2 ^ (8 * nr)) 0 (2 ^ (8 * nr))), s)
       \<and> fst (set_csr Logging m name (2 ^ (8 * nr) - 1) log) = None
       \<and> fst (set_csr Logging m name (2 ^ (8 * nr - 1)) log) = None
       \<and> (\<not> (- (2 ^ (8 * nr - 1)) \<le> value \<and> value < 2 ^ (8 * nr)) \<longrightarrow>
            set_csr B m name value s
              = (Some (AssertionError_range value (value mod 2 ^ (8 * nr)) (2 ^ (8 * nr))), s))
       \<and> (- (2 ^ (8 * nr - 1)) \<le> value \<and> value < 2 ^ (8 * nr) \<longrightarrow>
            fst (set_csr Logging m name value log) = None)"
proof -
  have h: "(2 :: int) * 2 ^ (8 * nr - 1) = 2 ^ (8 * nr)"
    using nr1 by (rule half_range)
  have range: "(- (2 ^ (8 * nr)) \<le> 2 * v \<and> v < 2 ^ (8 * nr))
      \<longleftrightarrow> (- (2 ^ (8 * nr - 1)) \<le> v \<and> v < 2 ^ (8 * nr))" for v :: int
    using h by auto
  have pos: "(0 :: int) < 2 ^ (8 * nr)" by simp
  have acc: "fst (set_csr Logging m name v log) = None"
    if "- (2 ^ (8 * nr - 1)) \<le> v \<and> v < 2 ^ (8 * nr)" for v
  proof -
    from that range have "- (2 ^ (8 * nr)) \<le> 2 * v" and "v < 2 ^ (8 * nr)" by auto
    with reg nr have "set_csr Logging m name v log
        = set_loop Logging addr nr (v mod 2 ^ (8 * nr)) [0 ..< nr] log"
      by (rule set_csr_accept)
    then show ?thesis by (simp add: set_loop_Logging)
  qed
  have rej: "set_csr B m name v s
      = (Some (AssertionError_range v (v mod 2 ^ (8 * nr)) (2 ^ (8 * nr))), s)"
    if "\<not> (- (2 ^ (8 * nr - 1)) \<le> v \<and> v < 2 ^ (8 * nr))" for v
  proof -
    from that range have "\<not> (- (2 ^ (8 * nr)) \<le> 2 * v \<and> v < 2 ^ (8 * nr))" by blast
    with reg nr show ?thesis by (rule set_csr_reject)
  qed
  have "set_csr B m name (2 ^ (8 * nr)) s
      = (Some (AssertionError_range (2 ^ (8 * nr)) 0 (2 ^ (8 * nr))), s)"
    using rej [of "2 ^ (8 * nr)"] by simp
  moreover have "fst (set_csr Logging m name (2 ^ (8 * nr) - 1) log) = None"
    using pos h by (intro acc) linarith
  moreover have "fst (set_csr Logging m name (2 ^ (8 * nr - 1)) log) = None"
    using pos h by (intro acc) linarith
  ultimately show ?thesis using acc [of "value"] rej [of "value"] by blast
qed

theorem set_csr_range_check_witness:
  "set_csr Storage [''r'' \<mapsto> (0, 1, True)] ''r'' 256 (\<lambda>a. 0)
       = (Some (AssertionError_range 256 0 256), \<lambda>a. 0)
   \<and> fst (set_csr Logging [''r'' \<mapsto> (0, 1, True)] ''r'' 255 []) = None
   \<and> fst (set_csr Logging [''r'' \<mapsto> (0, 1, True)] ''r'' 128 []) = None
   \<and> set_csr Storage [''r'' \<mapsto> (0, 1, True)] ''r'' (- 129) (\<lambda>a. 0)
       = (Some (AssertionError_range (- 129) 127 256), \<lambda>a. 0)"
  using set_csr_range_check [of "[''r'' \<mapsto> (0, 1, True)]" "''r''" 0 1 Storage "\<lambda>a. 0" "[]" "- 129"]
  by simp

text \<open>
  C2, as stated: a named-value write to a register of width 3 at address \<open>A\<close> writes
  at the consecutive addresses \<open>A\<close>, \<open>A + 1\<close>, \<open>A + 2\<close>.  \<open>PitayaCSR.set\<close> calls
  \<open>self.set_one(addr + i*4, v)\<close>: the bytes go to \<open>A\<close>, \<open>A + 4\<close>, \<open>A + 8\<close>.
\<close>

theorem set_csr_consecutive_addresses_counterexample:
  "map fst (snd (set_csr Logging [''r'' \<mapsto> (0x100, 3, True)] ''r'' 0x010203 []))
     = [0x100, 0x104, 0x108]
   \<and> map fst (snd (set_csr Logging [''r'' \<mapsto> (0x100, 3, True)] ''r'' 0x010203 []))
     \<noteq> [0x100, 0x101, 0x102]"
  by (simp add: set_csr_def Logging_def upt_rec)

text \<open>
  C2, amended: for a writable register of width \<open>nr\<close> at address \<open>addr\<close> and an accepted
  value, \<open>PitayaCSR.set\<close> makes exactly \<open>nr\<close> byte writes, at the addresses \<open>addr\<close>,
  \<open>addr + 4\<close>, ..., \<open>addr + 4 * (nr - 1)\<close>, one 32-bit word apart, carrying the bytes of
  \<open>value mod 2 ^ (8 * nr)\<close> most significant first.  On the simulated bus,
  \<open>CsrParams.writes\<close> yields for a named register of \<open>n\<close> bits at the offset \<open>a\<close>
  exactly \<open>(n + 7) div 8\<close> transactions \<open>TWrite\<close> at the consecutive addresses \<open>a\<close>,
  \<open>a + 1\<close>, ..., most significant byte first.
\<close>

theorem set_csr_byte_writes:
  assumes reg: "m name = Some (addr, nr, True)" and nr1: "1 \<le> nr" and nr: "nr \<le> 128"
    and lo: "- (2 ^ (8 * nr - 1)) \<le> value" and hi: "value < 2 ^ (8 * nr)"
    and off: "get_offset k = Inr a" and size: "find_size desc (Name k) None = Some n"
  shows "set_csr Logging m name value log
           = (None, log @ map (\<lambda>i. (addr + 4 * int i,
                                     value mod 2 ^ (8 * nr) div 2 ^ (8 * (nr - 1 - i)) mod 256))
                              [0 ..< nr])
       \<and> writes desc get_offset [(Name k, v)]
           = (map (\<lambda>j. TWrite (a + int j) (v div 2 ^ (8 * ((n + 7) div 8 - 1 - j)) mod 256))
                  [0 ..< (n + 7) div 8], None)"
proof -
  have "(2 :: int) * 2 ^ (8 * nr - 1) = 2 ^ (8 * nr)"
    using nr1 by (rule half_range)
  with lo have lo': "- (2 ^ (8 * nr)) \<le> 2 * value" by linarith
  have "set_csr Logging m name value log
      = set_loop Logging addr nr (value mod 2 ^ (8 * nr)) [0 ..< nr] log"
    using reg nr lo' hi by (rule set_csr_accept)
  then have 1: "set_csr Logging m name value log
           = (None, log @ map (\<lambda>i. (addr + 4 * int i,
                                     value mod 2 ^ (8 * nr) div 2 ^ (8 * (nr - 1 - i)) mod 256))
                              [0 ..< nr])"
    by (simp add: set_loop_Logging byte_eq mult.commute)
  have "sorted_keys [Name k] = Inr [Name k]"
    by (simp add: sorted_keys_def)
  then have 2: "writes desc get_offset [(Name k, v)]
           = (map (\<lambda>j. TWrite (a + int j) (v div 2 ^ (8 * ((n + 7) div 8 - 1 - j)) mod 256))
                  [0 ..< (n + 7) div 8], None)"
    using off size by (simp add: writes_def write_bytes_rev Let_def add.commute)
  from 1 2 show ?thesis by (rule conjI)
qed

theorem set_csr_byte_writes_witness:
  "set_csr Logging [''r'' \<mapsto> (0x100, 3, True)] ''r'' 0x010203 []
      = (None, [(0x100, 1), (0x104, 2), (0x108, 3)])
   \<and> writes [(''a'', 8), (''r'', 24)] (\<lambda>s. if s = ''r'' then Inr 1 else Inl (KeyError s))
        [(Name ''r'', 0x010203)]
      = ([TWrite 1 1, TWrite 2 2, TWrite 3 3], None)"
  using set_csr_byte_writes [of "[''r'' \<mapsto> (0x100, 3, True)]" "''r''" "0x100" 3 "0x010203"
      "\<lambda>s. if s = ''r'' then Inr 1 else Inl (KeyError s)" "''r''" 1
      "[(''a'', 8), (''r'', 24)]" 24 "[]" "0x010203"]
  by (simp add: upt_rec)

text \<open>
  C3: on a backend that returns on a read the byte that was written, every value that
  \<open>set\<close> accepts for a writable register of width \<open>nr\<close> (the signed range
  \<open>- 2 ^ (8 * nr - 1) \<le> value < 2 ^ (8 * nr - 1)\<close> and the values up to
  \<open>2 ^ (8 * nr)\<close> above it) is written without failure, and \<open>get\<close> then joins the
  \<open>nr\<close> bytes to an integer congruent to the value modulo \<open>2 ^ (8 * nr)\<close>.
\<close>

theorem get_csr_set_csr_roundtrip:
  assumes "stores B" and "m name = Some (addr, nr, True)" and "1 \<le> nr" and "nr \<le> 128"
    and "- (2 ^ (8 * nr - 1)) \<le> value" and "value < 2 ^ (8 * nr)"
  shows "fst (set_csr B m name value s) = None
       \<and> (\<exists>r. get_csr B m name (snd (set_csr B m name value s)) = Inr r
              \<and> r mod 2 ^ (8 * nr) = value mod 2 ^ (8 * nr))"
proof -
  have "(2 :: int) * 2 ^ (8 * nr - 1) = 2 ^ (8 * nr)"
    using assms(3) by (rule half_range)
  with assms(5) have lo: "- (2 ^ (8 * nr)) \<le> 2 * value" by linarith
  from assms(1,2,4) lo assms(6)
  have "fst (set_csr B m name value s) = None"
    and "get_csr B m name (snd (set_csr B m name value s)) = Inr (value mod 2 ^ (8 * nr))"
    by (rule roundtrip)+
  then show ?thesis by simp
qed

theorem get_csr_set_csr_roundtrip_witness:
  "fst (set_csr Storage [''r'' \<mapsto> (0x100, 2, True)] ''r'' (- 2) (\<lambda>a. 0)) = None
   \<and> get_csr Storage [''r'' \<mapsto> (0x100, 2, True)] ''r''
        (snd (set_csr Storage [''r'' \<mapsto> (0x100, 2, True)] ''r'' (- 2) (\<lambda>a. 0))) = Inr 65534
   \<and> (65534 :: int) mod 2 ^ (8 * 2) = (- 2) mod 2 ^ (8 * 2)"
proof -
  have "get_csr Storage [''r'' \<mapsto> (0x100, 2, True)] ''r''
        (snd (set_csr Storage [''r'' \<mapsto> (0x100, 2, True)] ''r'' (- 2) (\<lambda>a. 0))) = Inr 65534"
    by (simp add: set_csr_def get_csr_def Storage_def upt_rec)
  with get_csr_set_csr_roundtrip [OF stores_Storage, of "[''r'' \<mapsto> (0x100, 2, True)]" "''r''"
      "0x100" 2 "- 2" "\<lambda>a. 0"]
  show ?thesis by simp
qed

text \<open>
  C4, as stated: with \<open>gain\<close> at address \<open>0x100\<close>, width 2, writable, the write of
  \<open>-1\<close> makes two byte writes at \<open>0x100\<close> and \<open>0x101\<close>.  The second write goes to
  \<open>0x104\<close>.
\<close>

theorem gain_write_addresses_counterexample:
  "snd (set_csr Logging [''gain'' \<mapsto> (0x100, 2, True)] ''gain'' (- 1) [])
     \<noteq> [(0x100, 0xFF), (0x101, 0xFF)]"
  by (simp add: set_csr_def Logging_def upt_rec)

text \<open>
  C4, amended: with \<open>gain\<close> at address \<open>0x100\<close>, width 2, writable, the write of \<open>-1\<close>
  makes exactly two byte writes, at \<open>0x100\<close> and \<open>0x104\<close>, each carrying \<open>0xFF\<close>;
  on a backend that returns the bytes written, the read of \<open>gain\<close> that follows
  returns \<open>0xFFFF\<close> (65535): the bytes are joined as an unsigned number, without sign
  extension.  On \<open>PitayaTB\<close>, whose \<open>get_one\<close> returns 0, the read returns 0.
\<close>

theorem gain_write_then_read:
  "set_csr Logging [''gain'' \<mapsto> (0x100, 2, True)] ''gain'' (- 1) []
     = (None, [(0x100, 0xFF), (0x104, 0xFF)])
   \<and> (stores B \<longrightarrow>
        fst (set_csr B [''gain'' \<mapsto> (0x100, 2, True)] ''gain'' (- 1) s) = None
        \<and> get_csr B [''gain'' \<mapsto> (0x100, 2, True)] ''gain''
             (snd (set_csr B [''gain'' \<mapsto> (0x100, 2, True)] ''gain'' (- 1) s)) = Inr 0xFFFF)
   \<and> get_csr PitayaTB [''gain'' \<mapsto> (0x100, 2, True)] ''gain''
        (snd (set_csr PitayaTB [''gain'' \<mapsto> (0x100, 2, True)] ''gain'' (- 1) params)) = Inr 0"
proof -
  let ?m = "[''gain'' \<mapsto> (0x100 :: int, 2 :: nat, True)]"
  have 1: "set_csr Logging ?m ''gain'' (- 1) [] = (None, [(0x100, 0xFF), (0x104, 0xFF)])"
    by (simp add: set_csr_def Logging_def upt_rec)
  have reg: "?m ''gain'' = Some (0x100, 2, True)" by simp
  have 2: "fst (set_csr B ?m ''gain'' (- 1) s) = None
        \<and> get_csr B ?m ''gain'' (snd (set_csr B ?m ''gain'' (- 1) s)) = Inr 0xFFFF"
    if st: "stores B"
  proof -
    have "fst (set_csr B ?m ''gain'' (- 1) s) = None"
      and "get_csr B ?m ''gain'' (snd (set_csr B ?m ''gain'' (- 1) s)) = Inr ((- 1) mod 2 ^ (8 * 2))"
      using st reg by (rule roundtrip; simp)+
    then show ?thesis by simp
  qed
  have 3: "get_csr PitayaTB ?m ''gain'' (snd (set_csr PitayaTB ?m ''gain'' (- 1) params)) = Inr 0"
    using reg by (rule get_csr_PitayaTB)
  from 1 2 3 show ?thesis by blast
qed

theorem gain_write_then_read_witness:
  "stores Storage
   \<and> get_csr Storage [''gain'' \<mapsto> (0x100, 2, True)] ''gain''
        (snd (set_csr Storage [''gain'' \<mapsto> (0x100, 2, True)] ''gain'' (- 1) (\<lambda>a. 0))) = Inr 65535"
  using gain_write_then_read [of Storage "\<lambda>a. 0"] stores_Storage by simp

text \<open>
  C5: a named write that fails because the name is not in the map, because the register
  is not writable or because the value is outside the accepted range, fails before the
  loop over the bytes: the backend's state is as before, and the logging backend has
  seen no call of \<open>set_one\<close>.
\<close>

theorem set_csr_failure_writes_nothing:
  assumes "m name = None
     \<or> (\<exists>addr nr. m name = Some (addr, nr, False))
     \<or> (\<exists>addr nr. m name = Some (addr, nr, True)
           \<and> \<not> (- (2 ^ (8 * nr)) \<le> 2 * value \<and> value < 2 ^ (8 * nr)))"
  shows "fst (set_csr B m name value s) \<noteq> None
       \<and> snd (set_csr B m name value s) = s
       \<and> snd (set_csr Logging m name value log) = log"
proof -
  have "fst (set_csr B' m name value t) \<noteq> None \<and> snd (set_csr B' m name value t) = t"
    for B' :: "'t backend" and t
    using assms unfolding set_csr_def Let_def ma_eq val_eq2
    by auto
  from this [of B s] this [of Logging log] show ?thesis by simp
qed

theorem set_csr_failure_writes_nothing_witness:
  "set_csr Storage [''ro'' \<mapsto> (0, 1, False), ''rw'' \<mapsto> (4, 1, True)] ''missing'' 1 (\<lambda>a. 0)
      = (Some (KeyError ''missing''), \<lambda>a. 0)
   \<and> set_csr Storage [''ro'' \<mapsto> (0, 1, False), ''rw'' \<mapsto> (4, 1, True)] ''ro'' 1 (\<lambda>a. 0)
      = (Some (AssertionError_name ''ro''), \<lambda>a. 0)
   \<and> set_csr Storage [''ro'' \<mapsto> (0, 1, False), ''rw'' \<mapsto> (4, 1, True)] ''rw'' 256 (\<lambda>a. 0)
      = (Some (AssertionError_range 256 0 256), \<lambda>a. 0)
   \<and> snd (set_csr Logging [''ro'' \<mapsto> (0, 1, False), ''rw'' \<mapsto> (4, 1, True)] ''rw'' 256 []) = []"
  using set_csr_failure_writes_nothing
          [of "[''ro'' \<mapsto> (0, 1, False), ''rw'' \<mapsto> (4, 1, True)]" "''missing''" 1 Storage "\<lambda>a. 0" "[]"]
        set_csr_failure_writes_nothing
          [of "[''ro'' \<mapsto> (0, 1, False), ''rw'' \<mapsto> (4, 1, True)]" "''ro''" 1 Storage "\<lambda>a. 0" "[]"]
        set_csr_failure_writes_nothing
          [of "[''ro'' \<mapsto> (0, 1, False), ''rw'' \<mapsto> (4, 1, True)]" "''rw''" 256 Storage "\<lambda>a. 0" "[]"]
  by (simp add: set_csr_def)

text \<open>
  C10: when the register \<open>prefix_shift\<close> reads as 0, \<open>set_iir\<close> passes the shift 16 to
  \<open>get_params\<close>, and when \<open>prefix_width\<close> reads as 0, the width 25; the parameters
  written are those computed from the defaults.  On \<open>PitayaTB\<close>, where \<open>get_one\<close>
  returns 0 at every address, both registers read as 0 and the shift 16 and the width 25
  are always the ones used.
\<close>

theorem set_iir_defaults:
  "(get_csr B m (prefix @ ''_shift'') s = Inr 0 \<and> get_csr B m (prefix @ ''_width'') s = Inr r2 \<longrightarrow>
      set_iir B m get_params prefix b a s
        = set_params B m prefix
            (snd (snd (get_params b a 16 (if r2 = 0 then 25 else r2)))) s)
   \<and> (get_csr B m (prefix @ ''_shift'') s = Inr r1 \<and> get_csr B m (prefix @ ''_width'') s = Inr 0 \<longrightarrow>
      set_iir B m get_params prefix b a s
        = set_params B m prefix
            (snd (snd (get_params b a (if r1 = 0 then 16 else r1) 25))) s)
   \<and> (m' (prefix @ ''_shift'') \<noteq> None \<and> m' (prefix @ ''_width'') \<noteq> None \<longrightarrow>
      get_csr PitayaTB m' (prefix @ ''_shift'') params = Inr 0
      \<and> get_csr PitayaTB m' (prefix @ ''_width'') params = Inr 0
      \<and> set_iir PitayaTB m' get_params prefix b a params
        = set_params PitayaTB m' prefix (snd (snd (get_params b a 16 25))) params)"
proof -
  have gen: "set_iir B' mm get_params prefix b a t
      = set_params B' mm prefix
          (snd (snd (get_params b a (if x1 = 0 then 16 else x1) (if x2 = 0 then 25 else x2)))) t"
    if "get_csr B' mm (prefix @ ''_shift'') t = Inr x1"
      and "get_csr B' mm (prefix @ ''_width'') t = Inr x2"
    for B' :: "'t backend" and mm t x1 x2
    using that by (simp add: set_iir_def Let_def split: prod.splits)
  have tb: "get_csr PitayaTB m' (prefix @ ''_shift'') params = Inr 0
      \<and> get_csr PitayaTB m' (prefix @ ''_width'') params = Inr 0"
    if "m' (prefix @ ''_shift'') \<noteq> None \<and> m' (prefix @ ''_width'') \<noteq> None"
    using that by (auto simp: get_csr_PitayaTB)
  show ?thesis
    using gen [of B m s 0 r2] gen [of B m s r1 0] gen [of PitayaTB m' params 0 0] tb
    by simp
qed

theorem set_iir_defaults_witness:
  "set_iir PitayaTB
      [''f_shift'' \<mapsto> (0x40300000, 1, False), ''f_width'' \<mapsto> (0x40300004, 1, False),
       ''f_b0'' \<mapsto> (0x40300008, 1, True)]
      (\<lambda>b a shift width. (b, a, [(''b0'', shift + width)])) ''f'' () () Map.empty
    = (None, [2 \<mapsto> 41])"
  using set_iir_defaults [of PitayaTB
      "[''f_shift'' \<mapsto> (0x40300000, 1, False), ''f_width'' \<mapsto> (0x40300004, 1, False),
        ''f_b0'' \<mapsto> (0x40300008, 1, True)]"
      "''f''" Map.empty 0 "\<lambda>b a shift width. (b, a, [(''b0'', shift + width)])" "()" "()" 0
      "[''f_shift'' \<mapsto> (0x40300000, 1, False), ''f_width'' \<mapsto> (0x40300004, 1, False),
        ''f_b0'' \<mapsto> (0x40300008, 1, True)]"
      Map.empty]
  by (simp add: set_params_def set_csr_def PitayaTB_def)

section \<open>Properties of the sampler and of the driver loop\<close>

text \<open>
  While the sampler waits for the next output, with no input left, a cycle changes
  nothing.
\<close>

lemma do_simulation_wait:
  assumes "self_warmup f \<le> cc" and "length (self_y f) \<noteq> length (self_x f)"
    and "self_interval f \<noteq> 0" and "self_xgen f = []" and "self_ygen f = due # rest"
    and "cc - self_warmup f \<noteq> due"
  shows "do_simulation cc y f = (None, f)"
  using assms by (simp add: do_simulation_def Let_def)

lemma run_simulation_wait:
  assumes "length (self_y f) \<noteq> length (self_x f)"
    and "self_interval f \<noteq> 0" and "self_xgen f = []" and "self_ygen f = due # rest"
  shows "self_warmup f \<le> cc \<Longrightarrow> cc - self_warmup f + int n \<le> due \<Longrightarrow>
    run_simulation dut (n + k) cc f = run_simulation dut k (cc + int n) f"
proof (induction n arbitrary: cc)
  case 0
  then show ?case by simp
next
  case (Suc n)
  from Suc.prems have "cc - self_warmup f \<noteq> due" by simp
  with assms Suc.prems(1) have "do_simulation cc (dut cc) f = (None, f)"
    by (intro do_simulation_wait)
  moreover have "run_simulation dut (n + k) (cc + 1) f = run_simulation dut k (cc + 1 + int n) f"
    using Suc.prems by (intro Suc.IH) simp_all
  ultimately show ?case by (simp add: ac_simps)
qed

text \<open>Before the end of the warmup, \<open>do_simulation\<close> returns at once.\<close>

lemma run_simulation_before_warmup:
  "cc + int n \<le> self_warmup f \<Longrightarrow>
    run_simulation dut (n + k) cc f = run_simulation dut k (cc + int n) f"
proof (induction n arbitrary: cc)
  case 0
  then show ?case by simp
next
  case (Suc n)
  from Suc.prems have "do_simulation cc (dut cc) f = (None, f)"
    by (simp add: do_simulation_def Let_def)
  moreover have "run_simulation dut (n + k) (cc + 1) f = run_simulation dut k (cc + 1 + int n) f"
    using Suc.prems by (intro Suc.IH) simp
  ultimately show ?case by (simp add: ac_simps)
qed

lemma empty_stops:
  "self_x f = [] \<Longrightarrow> self_y f = [] \<Longrightarrow> self_warmup f \<le> cc \<Longrightarrow>
     run_simulation dut (Suc k) cc f = Some (StopSimulation, cc, f)"
  by (simp add: do_simulation_def)

text \<open>
  Three inputs, one per cycle.  With a latency of 0 or 1 the outputs are captured while
  inputs are still applied; from 2 on, the three inputs are applied first.
\<close>

lemma run3_small:
  assumes "L = 0 \<or> L = 1"
  shows "run_simulation dut (nat L + 5 + k) 0
       \<lparr> self_x = [i0, i1, i2], self_xgen = [i0, i1, i2], self_ygen = [], self_y = [],
          self_warmup = 0, self_latency = L, self_interval = 1, dut_x = 0 \<rparr>
     = Some (StopSimulation, L + 4,
       \<lparr> self_x = [i0, i1, i2], self_xgen = [], self_ygen = [],
          self_y = [dut (L + 1), dut (L + 2), dut (L + 3)],
          self_warmup = 0, self_latency = L, self_interval = 1, dut_x = i2 \<rparr>)"
proof -
  have 5: "5 + k = Suc (Suc (Suc (Suc (Suc k))))" by simp
  have 6: "nat 1 + 5 + k = Suc (Suc (Suc (Suc (Suc (Suc k)))))" by simp
  from assms show ?thesis
  proof
    assume "L = 0"
    then show ?thesis by (simp add: 5 do_simulation_def)
  next
    assume "L = 1"
    then show ?thesis by (simp only: 6) (simp add: do_simulation_def)
  qed
qed

lemma run3_large:
  assumes "2 \<le> L"
  shows "run_simulation dut (nat L + 5 + k) 0
       \<lparr> self_x = [i0, i1, i2], self_xgen = [i0, i1, i2], self_ygen = [], self_y = [],
          self_warmup = 0, self_latency = L, self_interval = 1, dut_x = 0 \<rparr>
     = Some (StopSimulation, L + 4,
       \<lparr> self_x = [i0, i1, i2], self_xgen = [], self_ygen = [],
          self_y = [dut (L + 1), dut (L + 2), dut (L + 3)],
          self_warmup = 0, self_latency = L, self_interval = 1, dut_x = i2 \<rparr>)"
proof -
  let ?f = "\<lparr> self_x = [i0, i1, i2], self_xgen = [], self_ygen = [L + 1, L + 2, L + 3],
          self_y = [], self_warmup = 0, self_latency = L, self_interval = 1, dut_x = i2 \<rparr>"
  have fuel: "nat L + 5 + k = Suc (Suc (Suc (nat (L - 2) + Suc (Suc (Suc (Suc k))))))"
    using assms by simp
  have first: "run_simulation dut (Suc (Suc (Suc n))) 0
       \<lparr> self_x = [i0, i1, i2], self_xgen = [i0, i1, i2], self_ygen = [], self_y = [],
          self_warmup = 0, self_latency = L, self_interval = 1, dut_x = 0 \<rparr>
      = run_simulation dut n 3 ?f" for n
    using assms by (simp add: do_simulation_def add.commute)
  have wait: "run_simulation dut (nat (L - 2) + Suc (Suc (Suc (Suc k)))) 3 ?f
      = run_simulation dut (Suc (Suc (Suc (Suc k)))) (3 + int (nat (L - 2))) ?f"
    using assms by (intro run_simulation_wait [where due = "L + 1" and rest = "[L + 2, L + 3]"]) simp_all
  have at: "3 + int (nat (L - 2)) = L + 1"
    using assms by simp
  have last: "run_simulation dut (Suc (Suc (Suc (Suc k)))) (L + 1) ?f
      = Some (StopSimulation, L + 4,
       \<lparr> self_x = [i0, i1, i2], self_xgen = [], self_ygen = [],
          self_y = [dut (L + 1), dut (L + 2), dut (L + 3)],
          self_warmup = 0, self_latency = L, self_interval = 1, dut_x = i2 \<rparr>)"
    using assms by (simp add: do_simulation_def add.commute)
  show ?thesis
    by (simp only: fuel first wait at last)
qed

lemma gen_next_empty:
  assumes "\<not> gen_done st" and "self_queue st = []"
  shows "gen_next st = (Yield None, st\<lparr> gen_delay := gen_delay st - 1 \<rparr>)"
  using assms by (cases st) (simp add: gen_next_def)

lemma clock_step_empty:
  assumes "\<not> gen_done st" and "self_queue st = []"
  shows "(clock_step ^^ n) (c, st) = (c + n, st\<lparr> gen_delay := gen_delay st - n \<rparr>)"
  using assms
proof (induction n arbitrary: c st)
  case 0
  then show ?case by simp
next
  case (Suc n)
  have "(clock_step ^^ Suc n) (c, st) = (clock_step ^^ n) (clock_step (c, st))"
    by (simp add: funpow_swap1)
  also have "clock_step (c, st) = (c + 1, st\<lparr> gen_delay := gen_delay st - 1 \<rparr>)"
    using Suc.prems by (simp add: clock_step_def gen_next_empty)
  also have "(clock_step ^^ n) (c + 1, st\<lparr> gen_delay := gen_delay st - 1 \<rparr>)
      = (c + 1 + n, st\<lparr> gen_delay := gen_delay st - 1 \<rparr>\<lparr> gen_delay := gen_delay st - 1 - n \<rparr>)"
    using Suc.prems by (subst Suc.IH) simp_all
  finally show ?case by simp
qed



section \<open>The claims on the sampler and on the driver loop\<close>

text \<open>
  C6: with the latency \<open>L \<ge> 0\<close>, the interval 1, no warmup and the three inputs
  \<open>i0\<close>, \<open>i1\<close>, \<open>i2\<close>, the run ends (with enough fuel, \<open>L + 5\<close> cycles or more) by
  StopSimulation in cycle \<open>L + 4\<close>, having captured exactly three outputs; output \<open>j\<close>
  is the device's output of cycle \<open>j + 1 + L\<close>, for \<open>j\<close> = 0, 1, 2.  In general, a cycle
  that applies an input (the effective cycle \<open>c = cycle_counter - warmup\<close> is not
  negative and a multiple of the interval, the run is not complete and an input is left)
  drives it into the device and appends \<open>c + 1 + latency\<close> to the cycles in which an
  output is due; the head of that list is removed in the same cycle only when it is
  \<open>c\<close> itself.
\<close>

theorem sampler_latency:
  "(0 \<le> L \<longrightarrow>
      Filter_init [i0, i1, i2] 0 L 1
        = Inr \<lparr> self_x = [i0, i1, i2], self_xgen = [i0, i1, i2], self_ygen = [], self_y = [],
                 self_warmup = 0, self_latency = L, self_interval = 1, dut_x = 0 \<rparr>
      \<and> run_simulation dut (nat L + 5 + k) 0
          \<lparr> self_x = [i0, i1, i2], self_xgen = [i0, i1, i2], self_ygen = [], self_y = [],
             self_warmup = 0, self_latency = L, self_interval = 1, dut_x = 0 \<rparr>
        = Some (StopSimulation, L + 4,
          \<lparr> self_x = [i0, i1, i2], self_xgen = [], self_ygen = [],
             self_y = map (\<lambda>j. dut (int j + 1 + L)) [0, 1, 2],
             self_warmup = 0, self_latency = L, self_interval = 1, dut_x = i2 \<rparr>))
   \<and> (self_warmup f \<le> cc \<and> length (self_y f) \<noteq> length (self_x f) \<and> self_interval f \<noteq> 0
        \<and> (cc - self_warmup f) mod self_interval f = 0 \<and> self_xgen f = xv # rest \<longrightarrow>
      fst (do_simulation cc y f) = None
      \<and> dut_x (snd (do_simulation cc y f)) = xv
      \<and> self_xgen (snd (do_simulation cc y f)) = rest
      \<and> (self_ygen (snd (do_simulation cc y f))
            = self_ygen f @ [cc - self_warmup f + 1 + self_latency f]
          \<or> (cc - self_warmup f) # self_ygen (snd (do_simulation cc y f))
            = self_ygen f @ [cc - self_warmup f + 1 + self_latency f]))"
proof -
  have run: "run_simulation dut (nat L + 5 + k) 0
          \<lparr> self_x = [i0, i1, i2], self_xgen = [i0, i1, i2], self_ygen = [], self_y = [],
             self_warmup = 0, self_latency = L, self_interval = 1, dut_x = 0 \<rparr>
        = Some (StopSimulation, L + 4,
          \<lparr> self_x = [i0, i1, i2], self_xgen = [], self_ygen = [],
             self_y = map (\<lambda>j. dut (int j + 1 + L)) [0, 1, 2],
             self_warmup = 0, self_latency = L, self_interval = 1, dut_x = i2 \<rparr>)"
    if "0 \<le> L"
  proof -
    have ys: "map (\<lambda>j. dut (int j + 1 + L)) [0, 1, 2] = [dut (L + 1), dut (L + 2), dut (L + 3)]"
      by (simp add: add.commute)
    show ?thesis
    proof (cases "2 \<le> L")
      case True
      then show ?thesis by (simp only: ys run3_large)
    next
      case False
      with that have "L = 0 \<or> L = 1" by auto
      then show ?thesis by (simp only: ys run3_small)
    qed
  qed
  have step: "fst (do_simulation cc y f) = None
      \<and> dut_x (snd (do_simulation cc y f)) = xv
      \<and> self_xgen (snd (do_simulation cc y f)) = rest
      \<and> (self_ygen (snd (do_simulation cc y f))
            = self_ygen f @ [cc - self_warmup f + 1 + self_latency f]
          \<or> (cc - self_warmup f) # self_ygen (snd (do_simulation cc y f))
            = self_ygen f @ [cc - self_warmup f + 1 + self_latency f])"
    if "self_warmup f \<le> cc \<and> length (self_y f) \<noteq> length (self_x f) \<and> self_interval f \<noteq> 0
        \<and> (cc - self_warmup f) mod self_interval f = 0 \<and> self_xgen f = xv # rest"
    using that by (cases "self_ygen f") (simp_all add: do_simulation_def Let_def)
  from run step show ?thesis by (simp add: Filter_init_def)
qed

theorem sampler_latency_witness:
  "run_simulation (\<lambda>c. c) 7 0
       \<lparr> self_x = [10, 20, 30], self_xgen = [10, 20, 30], self_ygen = [], self_y = [],
          self_warmup = 0, self_latency = 2, self_interval = 1, dut_x = 0 \<rparr>
     = Some (StopSimulation, 6,
       \<lparr> self_x = [10, 20, 30], self_xgen = [], self_ygen = [], self_y = [3, 4, 5],
          self_warmup = 0, self_latency = 2, self_interval = 1, dut_x = 30 \<rparr>)
   \<and> self_ygen (snd (do_simulation 0 0
       \<lparr> self_x = [10, 20, 30], self_xgen = [10, 20, 30], self_ygen = [], self_y = [],
          self_warmup = 0, self_latency = 2, self_interval = 1, dut_x = 0 \<rparr>)) = [3]"
  using sampler_latency [of 2 10 20 30 "\<lambda>c. c" 0
      "\<lparr> self_x = [10, 20, 30], self_xgen = [10, 20, 30], self_ygen = [], self_y = [],
          self_warmup = 0, self_latency = 2, self_interval = 1, dut_x = 0 \<rparr>" 0 10 "[20, 30]" 0]
  by simp

text \<open>
  C7, as stated: with an empty input the run ends at once, without advancing past cycle
  0.  With the default \<open>warmup=200\<close> (and \<open>interval=1\<close>), \<open>do_simulation\<close> returns in
  cycle 0 without raising StopSimulation, because \<open>if c < 0: return\<close> comes first, and
  the run ends in cycle 200.
\<close>

theorem empty_input_default_warmup_counterexample:
  "Filter_init [] 200 0 1
     = Inr \<lparr> self_x = [], self_xgen = [], self_ygen = [], self_y = [],
              self_warmup = 200, self_latency = 0, self_interval = 1, dut_x = 0 \<rparr>
   \<and> do_simulation 0 0
       \<lparr> self_x = [], self_xgen = [], self_ygen = [], self_y = [],
          self_warmup = 200, self_latency = 0, self_interval = 1, dut_x = 0 \<rparr>
     = (None,
       \<lparr> self_x = [], self_xgen = [], self_ygen = [], self_y = [],
          self_warmup = 200, self_latency = 0, self_interval = 1, dut_x = 0 \<rparr>)
   \<and> run_simulation (\<lambda>c. 0) 201 0
       \<lparr> self_x = [], self_xgen = [], self_ygen = [], self_y = [],
          self_warmup = 200, self_latency = 0, self_interval = 1, dut_x = 0 \<rparr>
     = Some (StopSimulation, 200,
       \<lparr> self_x = [], self_xgen = [], self_ygen = [], self_y = [],
          self_warmup = 200, self_latency = 0, self_interval = 1, dut_x = 0 \<rparr>)"
proof -
  let ?f = "\<lparr> self_x = [], self_xgen = [], self_ygen = [], self_y = [],
          self_warmup = 200, self_latency = 0, self_interval = 1, dut_x = 0 \<rparr>"
  have "run_simulation (\<lambda>c. 0) (200 + Suc 0) 0 ?f = run_simulation (\<lambda>c. 0) (Suc 0) (0 + int 200) ?f"
    by (rule run_simulation_before_warmup) simp
  also have "\<dots> = Some (StopSimulation, 200, ?f)"
    by (simp add: do_simulation_def)
  finally have "run_simulation (\<lambda>c. 0) 201 0 ?f = Some (StopSimulation, 200, ?f)"
    by simp
  then show ?thesis
    by (simp add: Filter_init_def do_simulation_def)
qed

text \<open>
  C7, amended: with an empty input the run captures no output and ends, by
  StopSimulation, in the first cycle whose effective cycle is not negative: the cycle
  \<open>max 0 warmup'\<close>, where \<open>warmup' = warmup - warmup mod interval\<close>.  It ends in
  cycle 0 when \<open>warmup' \<le> 0\<close>; when \<open>warmup' > 0\<close> it has not ended after \<open>warmup'\<close>
  cycles.
\<close>

theorem empty_input_stops_after_warmup:
  assumes "interval \<noteq> 0"
  shows "Filter_init [] warmup latency interval
           = Inr \<lparr> self_x = [], self_xgen = [], self_ygen = [], self_y = [],
                    self_warmup = warmup - warmup mod interval,
                    self_latency = latency, self_interval = interval, dut_x = 0 \<rparr>
       \<and> run_simulation dut (nat (warmup - warmup mod interval) + 1 + k) 0
           \<lparr> self_x = [], self_xgen = [], self_ygen = [], self_y = [],
              self_warmup = warmup - warmup mod interval,
              self_latency = latency, self_interval = interval, dut_x = 0 \<rparr>
           = Some (StopSimulation, max 0 (warmup - warmup mod interval),
               \<lparr> self_x = [], self_xgen = [], self_ygen = [], self_y = [],
                  self_warmup = warmup - warmup mod interval,
                  self_latency = latency, self_interval = interval, dut_x = 0 \<rparr>)
       \<and> (0 < warmup - warmup mod interval \<longrightarrow>
            run_simulation dut (nat (warmup - warmup mod interval)) 0
              \<lparr> self_x = [], self_xgen = [], self_ygen = [], self_y = [],
                 self_warmup = warmup - warmup mod interval,
                 self_latency = latency, self_interval = interval, dut_x = 0 \<rparr>
              = None)"
proof -
  define w where "w = warmup - warmup mod interval"
  let ?f = "\<lparr> self_x = [], self_xgen = [], self_ygen = [], self_y = [],
              self_warmup = w, self_latency = latency, self_interval = interval, dut_x = 0 \<rparr>"
  have init: "Filter_init [] warmup latency interval = Inr ?f"
    using assms by (simp add: Filter_init_def w_def)
  have run: "run_simulation dut (nat w + 1 + k) 0 ?f = Some (StopSimulation, max 0 w, ?f)"
  proof (cases "0 < w")
    case True
    have "run_simulation dut (nat w + Suc k) 0 ?f = run_simulation dut (Suc k) (0 + int (nat w)) ?f"
      using True by (intro run_simulation_before_warmup) simp
    also have "\<dots> = Some (StopSimulation, 0 + int (nat w), ?f)"
      using True by (intro empty_stops) simp_all
    finally show ?thesis using True by simp
  next
    case False
    then have "run_simulation dut (Suc k) 0 ?f = Some (StopSimulation, 0, ?f)"
      by (intro empty_stops) simp_all
    with False show ?thesis by simp
  qed
  have early: "run_simulation dut (nat w) 0 ?f = None" if "0 < w"
  proof -
    have "run_simulation dut (nat w + 0) 0 ?f = run_simulation dut 0 (0 + int (nat w)) ?f"
      using that by (intro run_simulation_before_warmup) simp
    then show ?thesis by simp
  qed
  from init run early show ?thesis unfolding w_def by blast
qed

theorem empty_input_stops_after_warmup_witness:
  "run_simulation (\<lambda>c. c) 7 0
      \<lparr> self_x = [], self_xgen = [], self_ygen = [], self_y = [],
         self_warmup = 6, self_latency = 0, self_interval = 2, dut_x = 0 \<rparr>
    = Some (StopSimulation, 6,
      \<lparr> self_x = [], self_xgen = [], self_ygen = [], self_y = [],
         self_warmup = 6, self_latency = 0, self_interval = 2, dut_x = 0 \<rparr>)
   \<and> run_simulation (\<lambda>c. c) 6 0
      \<lparr> self_x = [], self_xgen = [], self_ygen = [], self_y = [],
         self_warmup = 6, self_latency = 0, self_interval = 2, dut_x = 0 \<rparr> = None"
  using empty_input_stops_after_warmup [of 2 7 0 "\<lambda>c. c" 0]
  by simp

text \<open>
  C8: when the queue is empty and the generator has not returned, \<open>next\<close> yields
  \<open>None\<close>, a step without transaction, and leaves the generator as it was (but for the
  countdown of a delay that is under way): it has neither returned nor raised.  \<open>n\<close>
  such clock steps advance the clock by \<open>n\<close>, and when \<open>CsrThread.write\<close> then puts
  a transaction into the queue, the next step yields it.
\<close>

theorem gen_idles_on_empty_queue:
  assumes "\<not> gen_done st" and "self_queue st = []"
  shows "gen_next st = (Yield None, st\<lparr> gen_delay := gen_delay st - 1 \<rparr>)
       \<and> (clock_step ^^ n) (c, st) = (c + n, st\<lparr> gen_delay := gen_delay st - n \<rparr>)
       \<and> (gen_delay st \<le> n \<longrightarrow>
            gen_next (write_enqueue addr value e (snd ((clock_step ^^ n) (c, st))))
              = (Yield (Some (TWrite addr value)),
                 st\<lparr> self_queue := [Event e], gen_delay := 0 \<rparr>))"
proof -
  have 1: "gen_next st = (Yield None, st\<lparr> gen_delay := gen_delay st - 1 \<rparr>)"
    using assms by (rule gen_next_empty)
  have 2: "(clock_step ^^ n) (c, st) = (c + n, st\<lparr> gen_delay := gen_delay st - n \<rparr>)"
    using assms by (rule clock_step_empty)
  have 3: "gen_next (write_enqueue addr value e (snd ((clock_step ^^ n) (c, st))))
              = (Yield (Some (TWrite addr value)),
                 st\<lparr> self_queue := [Event e], gen_delay := 0 \<rparr>)" if "gen_delay st \<le> n"
    unfolding 2 using assms that by (cases st) (simp add: gen_next_def write_enqueue_def)
  from 1 2 3 show ?thesis by blast
qed

theorem gen_idles_on_empty_queue_witness:
  "(clock_step ^^ 3)
      (7, \<lparr> self_queue = [], gen_delay = 0, gen_done = False, events_set = [] \<rparr>)
     = (10, \<lparr> self_queue = [], gen_delay = 0, gen_done = False, events_set = [] \<rparr>)
   \<and> gen_next \<lparr> self_queue = [], gen_delay = 0, gen_done = False, events_set = [] \<rparr>
     = (Yield None, \<lparr> self_queue = [], gen_delay = 0, gen_done = False, events_set = [] \<rparr>)
   \<and> gen_next (write_enqueue 1 2 0
        \<lparr> self_queue = [], gen_delay = 0, gen_done = False, events_set = [] \<rparr>)
     = (Yield (Some (TWrite 1 2)),
        \<lparr> self_queue = [Event 0], gen_delay = 0, gen_done = False, events_set = [] \<rparr>)"
proof -
  let ?st = "\<lparr> self_queue = [], gen_delay = 0, gen_done = False, events_set = [] \<rparr>"
  have "\<not> gen_done ?st" and "self_queue ?st = []" by simp_all
  note w = gen_idles_on_empty_queue [OF this, of 3 7 1 2 0]
  from w have 1: "(clock_step ^^ 3) (7, ?st) = (10, ?st)" by simp
  from w have 2: "gen_next ?st = (Yield None, ?st)" by simp
  from w have 3: "gen_next (write_enqueue 1 2 0 ?st)
      = (Yield (Some (TWrite 1 2)), ?st\<lparr> self_queue := [Event 0] \<rparr>)" by (elim conjE) simp
  from 1 2 3 show ?thesis by simp
qed




end
